theory Spec2Isabelle
  imports Main "HOL-Library.Word"
begin

unbundle bit_operations_syntax

section \<open>Data model of rwkv.cpp\<close>

text \<open>
  The API functions of \<^verbatim>\<open>rwkv.cpp\<close> work on heap objects through pointers. A pointer is
  an address or NULL (\<open>addr option\<close>); the heap is a record of partial maps from addresses
  to objects. Dereferencing NULL or an address that holds no object is undefined behaviour
  in C++; the model makes it the result \<open>None\<close> of the API function.

  The struct declarations (\<^verbatim>\<open>rwkv.h\<close> and the \<^verbatim>\<open>.inc\<close> files) are not part of
  \<^verbatim>\<open>rwkv.cpp\<close>; the records below hold the members that \<^verbatim>\<open>rwkv.cpp\<close> reads or
  writes. \<^verbatim>\<open>size_t\<close> is 64 bits wide (LP64), the header fields are unsigned 32-bit
  integers (the code casts them to \<^verbatim>\<open>size_t\<close>), \<^verbatim>\<open>head_size\<close> is a 64-bit integer.
\<close>

type_synonym addr = nat
type_synonym size_t = "64 word"
type_synonym uint32_t = "32 word"
type_synonym int64_t = "64 word"
type_synonym rwkv_error_flags = "32 word"

record rwkv_file_header =
  n_vocab :: uint32_t
  n_embed :: uint32_t
  n_layer :: uint32_t

record rwkv_model =
  model_ggml_ctx :: "addr option"
  header :: rwkv_file_header
  arch_version_major :: uint32_t
  head_size :: int64_t
  reference_count :: int

record rwkv_computation_graph =
  graph_ggml_ctx :: "addr option"

record rwkv_context =
  model :: "addr option"
  n_threads :: uint32_t
  serial_graph :: rwkv_computation_graph
  sequential_graph :: rwkv_computation_graph
  last_used_sequence_length :: size_t
  last_error :: rwkv_error_flags
  print_errors :: bool

text \<open>
  The enumerators of \<^verbatim>\<open>enum rwkv_error_flags\<close> are declared in \<^verbatim>\<open>rwkv.h\<close>; the
  three that \<^verbatim>\<open>rwkv.cpp\<close> names are parameters of the model.
\<close>

record rwkv_h =
  RWKV_ERROR_NONE :: rwkv_error_flags
  RWKV_ERROR_CTX :: rwkv_error_flags
  RWKV_ERROR_ALLOC :: rwkv_error_flags

text \<open>
  The program state: the contexts and models allocated with \<^verbatim>\<open>new\<close>, the live ggml
  contexts (memory arenas), the next unused address, and the two globals
  \<^verbatim>\<open>global_last_error\<close> and \<^verbatim>\<open>global_print_errors\<close>.
\<close>

record rwkv_state =
  contexts :: "addr \<rightharpoonup> rwkv_context"
  models :: "addr \<rightharpoonup> rwkv_model"
  arenas :: "addr set"
  next_addr :: addr
  global_last_error :: rwkv_error_flags
  global_print_errors :: bool

definition update_context :: "addr \<Rightarrow> (rwkv_context \<Rightarrow> rwkv_context) \<Rightarrow> rwkv_state \<Rightarrow> rwkv_state" where
  "update_context c f s = s\<lparr>contexts := (contexts s)(c := map_option f (contexts s c))\<rparr>"

definition update_model :: "addr \<Rightarrow> (rwkv_model \<Rightarrow> rwkv_model) \<Rightarrow> rwkv_state \<Rightarrow> rwkv_state" where
  "update_model a f s = s\<lparr>models := (models s)(a := map_option f (models s a))\<rparr>"

text \<open>
  \<^verbatim>\<open>new(std::nothrow) struct rwkv_context()\<close> and \<^verbatim>\<open>new(std::nothrow) struct rwkv_model()\<close>.
  Whether the allocation succeeds is the parameter \<open>allocated\<close>. A successful one yields a
  value-initialised object (every member zero, so the reference count of a new model is 0)
  at an address not used before; a failed one yields NULL.
\<close>

definition new_rwkv_context :: "bool \<Rightarrow> rwkv_state \<Rightarrow> addr option \<times> rwkv_state" where
  "new_rwkv_context allocated s =
     (if allocated
      then (Some (next_addr s),
            s\<lparr>contexts := (contexts s)(next_addr s \<mapsto>
                 \<lparr>model = None, n_threads = 0,
                  serial_graph = \<lparr>graph_ggml_ctx = None\<rparr>,
                  sequential_graph = \<lparr>graph_ggml_ctx = None\<rparr>,
                  last_used_sequence_length = 0, last_error = 0, print_errors = False\<rparr>),
              next_addr := Suc (next_addr s)\<rparr>)
      else (None, s))"

definition new_rwkv_model :: "bool \<Rightarrow> rwkv_state \<Rightarrow> addr option \<times> rwkv_state" where
  "new_rwkv_model allocated s =
     (if allocated
      then (Some (next_addr s),
            s\<lparr>models := (models s)(next_addr s \<mapsto>
                 \<lparr>model_ggml_ctx = None,
                  header = \<lparr>n_vocab = 0, n_embed = 0, n_layer = 0\<rparr>,
                  arch_version_major = 0, head_size = 0, reference_count = 0\<rparr>),
              next_addr := Suc (next_addr s)\<rparr>)
      else (None, s))"

text \<open>
  \<^verbatim>\<open>std::unique_ptr<struct rwkv_context>\<close> going out of scope, and \<^verbatim>\<open>delete ctx->model\<close>:
  the object is removed from the heap.
\<close>

definition delete_context :: "addr \<Rightarrow> rwkv_state \<Rightarrow> rwkv_state" where
  "delete_context c s = s\<lparr>contexts := (contexts s)(c := None)\<rparr>"

definition delete_model :: "addr \<Rightarrow> rwkv_state \<Rightarrow> rwkv_state" where
  "delete_model a s = s\<lparr>models := (models s)(a := None)\<rparr>"

subsection \<open>Collaborators outside rwkv.cpp\<close>

text \<open>
  Modelled from the spec: \<^verbatim>\<open>ggml_free\<close> belongs to the tensor library (an external
  collaborator, section 1). It releases the memory arena it is given; NULL names no arena.
\<close>

definition ggml_free :: "addr option \<Rightarrow> rwkv_state \<Rightarrow> rwkv_state" where
  "ggml_free p s = (case p of None \<Rightarrow> s | Some a \<Rightarrow> s\<lparr>arenas := arenas s - {a}\<rparr>)"

text \<open>
  Modelled from the spec: \<^verbatim>\<open>RWKV_ASSERT_NULL_MSG\<close> is a macro of
  \<^verbatim>\<open>rwkv_error_handling.inc\<close>. When its condition fails the function returns NULL, and
  "every failure sets an inspectable error code" (section 7): the code goes to the
  process-wide slot, the one a caller without a Context can read.
\<close>

definition RWKV_ASSERT_NULL_MSG_failed :: "rwkv_error_flags \<Rightarrow> rwkv_state \<Rightarrow> rwkv_state" where
  "RWKV_ASSERT_NULL_MSG_failed err s = s\<lparr>global_last_error := err\<rparr>"

text \<open>
  Modelled from the spec: \<^verbatim>\<open>rwkv_load_model_from_file\<close> is in
  \<^verbatim>\<open>rwkv_model_loading.inc\<close>. What the file holds is the parameter \<open>file\<close>: either the
  load fails with an error code, or it yields the header and the derived fields. The
  loader "allocates one arena", "computes architecture version and head width once and
  stores them on the Model", and a failure leaves "no partial arena retained" (section 4.2).
  The result is the boolean that \<^verbatim>\<open>RWKV_ENSURE_OR_NULL\<close> tests.
\<close>

datatype load_outcome =
  Load_failed rwkv_error_flags
| Load_ok rwkv_file_header uint32_t int64_t

definition rwkv_load_model_from_file :: "load_outcome \<Rightarrow> addr \<Rightarrow> rwkv_state \<Rightarrow> bool \<times> rwkv_state" where
  "rwkv_load_model_from_file file a s =
     (case file of
        Load_failed err \<Rightarrow> (False, s\<lparr>global_last_error := err\<rparr>)
      | Load_ok hdr major hs \<Rightarrow>
          (True,
           (update_model a
              (\<lambda>m. m\<lparr>model_ggml_ctx := Some (next_addr s), header := hdr,
                      arch_version_major := major, head_size := hs\<rparr>) s)
           \<lparr>arenas := insert (next_addr s) (arenas s), next_addr := Suc (next_addr s)\<rparr>))"

text \<open>
  Modelled from the spec: \<^verbatim>\<open>rwkv_measure_and_build_serial_context\<close> is in
  \<^verbatim>\<open>rwkv_graph.inc\<close>. Whether the build succeeds is the parameter \<open>outcome\<close>
  ("failure modes: unrecognized architecture tensor pattern, node-count ceiling exceeded,
  phase-2 allocation failure", section 4.3). A successful build binds the single-step
  graph of the context to a scratch arena of its own; a failed one retains nothing.
\<close>

datatype build_outcome =
  Build_failed rwkv_error_flags
| Build_ok

definition rwkv_measure_and_build_serial_context :: "build_outcome \<Rightarrow> addr \<Rightarrow> rwkv_state \<Rightarrow> bool \<times> rwkv_state" where
  "rwkv_measure_and_build_serial_context outcome c s =
     (case outcome of
        Build_failed err \<Rightarrow> (False, s\<lparr>global_last_error := err\<rparr>)
      | Build_ok \<Rightarrow>
          (True,
           (update_context c (\<lambda>x. x\<lparr>serial_graph := \<lparr>graph_ggml_ctx = Some (next_addr s)\<rparr>\<rparr>) s)
           \<lparr>arenas := insert (next_addr s) (arenas s), next_addr := Suc (next_addr s)\<rparr>))"

subsection \<open>The graph of a multi-step request\<close>

text \<open>
  Modelled from the spec: the evaluator (\<^verbatim>\<open>rwkv_eval.inc\<close>) and the builder of the
  multi-step graph (\<^verbatim>\<open>rwkv_graph.inc\<close>) are not part of \<^verbatim>\<open>rwkv.cpp\<close>. Of a
  multi-step request for \<open>len\<close> tokens the definition keeps what section 4.3 says about the
  graph: "The multi-step graph is rebuilt (replacing the previous one) exactly when the
  requested token count differs from the context's last-built length; repeated requests of
  the same length reuse the existing graph." The last-built length is the member
  \<^verbatim>\<open>last_used_sequence_length\<close>, which \<^verbatim>\<open>rwkv_clone_context\<close> sets to 0 and
  \<^verbatim>\<open>rwkv_free\<close> tests before it releases the multi-step graph. Whether a build succeeds
  is the parameter \<open>outcome\<close>; a failed build is reported in the context's error slot and
  leaves the context as it was ("evaluation failures are reported per call and leave the
  Context valid for a corrected retry", section 7). The boolean says whether a graph for
  \<open>len\<close> tokens is in place.
\<close>

definition evaluate_multi_step_graph ::
  "build_outcome \<Rightarrow> addr option \<Rightarrow> size_t \<Rightarrow> rwkv_state \<Rightarrow> (bool \<times> rwkv_state) option" where
  "evaluate_multi_step_graph outcome ctx len s =
     (case ctx of
        None \<Rightarrow> None
      | Some c \<Rightarrow>
          (case contexts s c of
             None \<Rightarrow> None
           | Some x \<Rightarrow>
               if last_used_sequence_length x = len then Some (True, s)
               else
                 (case outcome of
                    Build_failed err \<Rightarrow>
                      Some (False, update_context c (\<lambda>x. x\<lparr>last_error := err\<rparr>) s)
                  | Build_ok \<Rightarrow>
                      let s1 = (if 0 < last_used_sequence_length x
                                then ggml_free (graph_ggml_ctx (sequential_graph x)) s
                                else s)
                      in Some (True,
                               (update_context c
                                  (\<lambda>x. x\<lparr>sequential_graph :=
                                             \<lparr>graph_ggml_ctx = Some (next_addr s)\<rparr>,
                                          last_used_sequence_length := len\<rparr>) s1)
                               \<lparr>arenas := insert (next_addr s) (arenas s1),
                                next_addr := Suc (next_addr s)\<rparr>))))"

section \<open>The API functions of rwkv.cpp\<close>

text \<open>
  \<^verbatim>\<open>*ctx\<close> and \<^verbatim>\<open>*ctx->model\<close>: the context a handle points to, and the model that
  context points to.
\<close>

definition ctx_context :: "rwkv_state \<Rightarrow> addr option \<Rightarrow> rwkv_context option" where
  "ctx_context s ctx = (case ctx of None \<Rightarrow> None | Some c \<Rightarrow> contexts s c)"

definition ctx_model :: "rwkv_state \<Rightarrow> addr option \<Rightarrow> rwkv_model option" where
  "ctx_model s ctx =
     (case ctx_context s ctx of
        None \<Rightarrow> None
      | Some x \<Rightarrow> (case model x of None \<Rightarrow> None | Some a \<Rightarrow> models s a))"

text \<open>
  \<^verbatim>\<open>rwkv_get_state_len\<close> (lines 121-129). The casts to \<^verbatim>\<open>size_t\<close> widen the header
  fields; the product is computed in 64 bits and wraps.
\<close>

definition rwkv_get_state_len :: "rwkv_state \<Rightarrow> addr option \<Rightarrow> size_t option" where
  "rwkv_get_state_len s ctx =
     (case ctx_model s ctx of
        None \<Rightarrow> None
      | Some m \<Rightarrow>
          if 5 \<le> arch_version_major m
          then Some (ucast (n_embed (header m)) * (2 + head_size m) * ucast (n_layer (header m)))
          else Some (ucast (n_embed (header m)) * 5 * ucast (n_layer (header m))))"

text \<open>
  \<^verbatim>\<open>rwkv_init_from_file\<close> (lines 53-68). \<^verbatim>\<open>ctx\<close> is a \<^verbatim>\<open>unique_ptr\<close>: on every
  return before \<^verbatim>\<open>ctx.release()\<close> the context object is deleted. \<^verbatim>\<open>ctx->model\<close> is a
  plain pointer, and line 60 dereferences it without a test.
\<close>

definition rwkv_init_from_file ::
  "rwkv_h \<Rightarrow> bool \<Rightarrow> bool \<Rightarrow> load_outcome \<Rightarrow> build_outcome \<Rightarrow> uint32_t \<Rightarrow> rwkv_state
     \<Rightarrow> (addr option \<times> rwkv_state) option" where
  "rwkv_init_from_file h ctx_allocated model_allocated file graph nthreads s0 =
     (let s1 = s0\<lparr>global_last_error := RWKV_ERROR_NONE h\<rparr> in
      case new_rwkv_context ctx_allocated s1 of
        (None, s2) \<Rightarrow>
          Some (None, RWKV_ASSERT_NULL_MSG_failed (RWKV_ERROR_CTX h OR RWKV_ERROR_ALLOC h) s2)
      | (Some ctx, s2) \<Rightarrow>
          (case new_rwkv_model model_allocated s2 of
             (p, s3) \<Rightarrow>
               let s4 = update_context ctx (\<lambda>x. x\<lparr>model := p\<rparr>) s3 in
               (case p of
                  None \<Rightarrow> None
                | Some a \<Rightarrow>
                    let s5 = update_model a
                               (\<lambda>m. m\<lparr>reference_count := reference_count m + 1\<rparr>) s4 in
                    (case rwkv_load_model_from_file file a s5 of
                       (False, s6) \<Rightarrow> Some (None, delete_context ctx s6)
                     | (True, s6) \<Rightarrow>
                         let s7 = update_context ctx (\<lambda>x. x\<lparr>n_threads := nthreads\<rparr>) s6 in
                         (case rwkv_measure_and_build_serial_context graph ctx s7 of
                            (False, s8) \<Rightarrow> Some (None, delete_context ctx s8)
                          | (True, s8) \<Rightarrow> Some (Some ctx, s8))))))"

text \<open>\<^verbatim>\<open>rwkv_clone_context\<close> (lines 71-87).\<close>

definition rwkv_clone_context ::
  "rwkv_h \<Rightarrow> bool \<Rightarrow> build_outcome \<Rightarrow> addr option \<Rightarrow> uint32_t \<Rightarrow> rwkv_state
     \<Rightarrow> (addr option \<times> rwkv_state) option" where
  "rwkv_clone_context h allocated graph ctx nthreads s0 =
     (case new_rwkv_context allocated s0 of
        (None, s1) \<Rightarrow>
          Some (None, RWKV_ASSERT_NULL_MSG_failed (RWKV_ERROR_CTX h OR RWKV_ERROR_ALLOC h) s1)
      | (Some clone, s1) \<Rightarrow>
          (case ctx_context s1 ctx of
             None \<Rightarrow> None
           | Some x \<Rightarrow>
               let s2 = update_context clone (\<lambda>y. y\<lparr>model := model x\<rparr>) s1 in
               (case model x of
                  None \<Rightarrow> None
                | Some a \<Rightarrow>
                    (case models s2 a of
                       None \<Rightarrow> None
                     | Some m \<Rightarrow>
                         let s3 = update_model a
                                    (\<lambda>m. m\<lparr>reference_count := reference_count m + 1\<rparr>) s2;
                             s4 = update_context clone (\<lambda>y. y\<lparr>n_threads := nthreads\<rparr>) s3
                         in
                         (case rwkv_measure_and_build_serial_context graph clone s4 of
                            (False, s5) \<Rightarrow> Some (None, delete_context clone s5)
                          | (True, s5) \<Rightarrow>
                              let s6 = update_context clone
                                         (\<lambda>y. y\<lparr>last_used_sequence_length := 0\<rparr>) s5 in
                              (case ctx_context s6 ctx of
                                 None \<Rightarrow> None
                               | Some x' \<Rightarrow>
                                   Some (Some clone,
                                         update_context clone
                                           (\<lambda>y. y\<lparr>print_errors := print_errors x'\<rparr>) s6)))))))"

text \<open>
  The accessors (lines 95-134). The two functions kept for backwards compatibility return
  \<^verbatim>\<open>uint32_t\<close>: the \<^verbatim>\<open>size_t\<close> value is truncated.
\<close>

definition rwkv_get_n_vocab :: "rwkv_state \<Rightarrow> addr option \<Rightarrow> size_t option" where
  "rwkv_get_n_vocab s ctx = map_option (\<lambda>m. ucast (n_vocab (header m))) (ctx_model s ctx)"

definition rwkv_get_n_embed :: "rwkv_state \<Rightarrow> addr option \<Rightarrow> size_t option" where
  "rwkv_get_n_embed s ctx = map_option (\<lambda>m. ucast (n_embed (header m))) (ctx_model s ctx)"

definition rwkv_get_n_layer :: "rwkv_state \<Rightarrow> addr option \<Rightarrow> size_t option" where
  "rwkv_get_n_layer s ctx = map_option (\<lambda>m. ucast (n_layer (header m))) (ctx_model s ctx)"

definition rwkv_get_logits_len :: "rwkv_state \<Rightarrow> addr option \<Rightarrow> size_t option" where
  "rwkv_get_logits_len s ctx = map_option (\<lambda>m. ucast (n_vocab (header m))) (ctx_model s ctx)"

definition rwkv_get_state_buffer_element_count :: "rwkv_state \<Rightarrow> addr option \<Rightarrow> uint32_t option" where
  "rwkv_get_state_buffer_element_count s ctx = map_option ucast (rwkv_get_state_len s ctx)"

definition rwkv_get_logits_buffer_element_count :: "rwkv_state \<Rightarrow> addr option \<Rightarrow> uint32_t option" where
  "rwkv_get_logits_buffer_element_count s ctx = map_option ucast (rwkv_get_logits_len s ctx)"

text \<open>
  \<^verbatim>\<open>rwkv_free\<close> (lines 137-155). \<^verbatim>\<open>reference_count\<close> is counted in the integers.
\<close>

definition rwkv_free :: "addr option \<Rightarrow> rwkv_state \<Rightarrow> rwkv_state option" where
  "rwkv_free ctx s =
     (case ctx of
        None \<Rightarrow> Some s
      | Some c \<Rightarrow>
          (case contexts s c of
             None \<Rightarrow> None
           | Some x \<Rightarrow>
               (case model x of
                  None \<Rightarrow> None
                | Some a \<Rightarrow>
                    (case models s a of
                       None \<Rightarrow> None
                     | Some m \<Rightarrow>
                         let s1 = update_model a
                                    (\<lambda>m. m\<lparr>reference_count := reference_count m - 1\<rparr>) s;
                             s2 = (if reference_count m - 1 = 0
                                   then delete_model a (ggml_free (model_ggml_ctx m) s1)
                                   else s1);
                             s3 = ggml_free (graph_ggml_ctx (serial_graph x)) s2;
                             s4 = (if 0 < last_used_sequence_length x
                                   then ggml_free (graph_ggml_ctx (sequential_graph x)) s3
                                   else s3)
                         in Some (delete_context c s4)))))"

text \<open>\<^verbatim>\<open>rwkv_set_print_errors\<close> and \<^verbatim>\<open>rwkv_get_print_errors\<close> (lines 158-166).\<close>

definition rwkv_set_print_errors :: "addr option \<Rightarrow> bool \<Rightarrow> rwkv_state \<Rightarrow> rwkv_state option" where
  "rwkv_set_print_errors ctx b s =
     (case ctx of
        None \<Rightarrow> Some (s\<lparr>global_print_errors := b\<rparr>)
      | Some c \<Rightarrow>
          (case contexts s c of
             None \<Rightarrow> None
           | Some x \<Rightarrow> Some (update_context c (\<lambda>x. x\<lparr>print_errors := b\<rparr>) s)))"

definition rwkv_get_print_errors :: "rwkv_state \<Rightarrow> addr option \<Rightarrow> bool option" where
  "rwkv_get_print_errors s ctx =
     (case ctx of
        None \<Rightarrow> Some (global_print_errors s)
      | Some c \<Rightarrow> map_option print_errors (contexts s c))"

text \<open>
  \<^verbatim>\<open>rwkv_get_last_error\<close> (lines 169-174): the value of the slot, and the state in which
  the slot holds \<^verbatim>\<open>RWKV_ERROR_NONE\<close>.
\<close>

definition rwkv_get_last_error ::
  "rwkv_h \<Rightarrow> addr option \<Rightarrow> rwkv_state \<Rightarrow> (rwkv_error_flags \<times> rwkv_state) option" where
  "rwkv_get_last_error h ctx s =
     (case ctx of
        None \<Rightarrow> Some (global_last_error s, s\<lparr>global_last_error := RWKV_ERROR_NONE h\<rparr>)
      | Some c \<Rightarrow>
          (case contexts s c of
             None \<Rightarrow> None
           | Some x \<Rightarrow>
               Some (last_error x,
                     update_context c (\<lambda>x. x\<lparr>last_error := RWKV_ERROR_NONE h\<rparr>) s)))"

subsection \<open>Sequences of API calls\<close>

text \<open>
  The calls of \<^verbatim>\<open>rwkv.cpp\<close> that change the state, with the arguments and the outcomes
  of the environment (allocation, file, graph build) each one meets.
\<close>

datatype api_call =
  Init_from_file bool bool load_outcome build_outcome uint32_t
| Clone_context bool build_outcome "addr option" uint32_t
| Free "addr option"
| Set_print_errors "addr option" bool
| Get_last_error "addr option"

fun api_step :: "rwkv_h \<Rightarrow> api_call \<Rightarrow> rwkv_state \<Rightarrow> rwkv_state option" where
  "api_step h (Init_from_file ca ma file graph n) s =
     map_option snd (rwkv_init_from_file h ca ma file graph n s)"
| "api_step h (Clone_context ca graph ctx n) s =
     map_option snd (rwkv_clone_context h ca graph ctx n s)"
| "api_step h (Free ctx) s = rwkv_free ctx s"
| "api_step h (Set_print_errors ctx b) s = rwkv_set_print_errors ctx b s"
| "api_step h (Get_last_error ctx) s = map_option snd (rwkv_get_last_error h ctx s)"

fun api_run :: "rwkv_h \<Rightarrow> api_call list \<Rightarrow> rwkv_state \<Rightarrow> rwkv_state option" where
  "api_run h [] s = Some s"
| "api_run h (k # ks) s = (case api_step h k s of None \<Rightarrow> None | Some s' \<Rightarrow> api_run h ks s')"

section \<open>Notions used to state the properties\<close>

text \<open>
  The state length in the words of the spec, over the natural numbers: "embedding width *
  (2 + head width) * layer count when architecture version >= 5, else embedding width * 5 *
  layer count".
\<close>

definition state_len_spec :: "nat \<Rightarrow> nat \<Rightarrow> nat \<Rightarrow> nat \<Rightarrow> nat" where
  "state_len_spec arch_version embedding_width head_width layer_count =
     (if 5 \<le> arch_version then embedding_width * (2 + head_width) * layer_count
      else embedding_width * 5 * layer_count)"

text \<open>
  The error slot a handle addresses (line 170:
  \<^verbatim>\<open>ctx ? &ctx->last_error : &global_last_error\<close>), and its value.
\<close>

definition error_slot :: "rwkv_state \<Rightarrow> addr option \<Rightarrow> rwkv_error_flags option" where
  "error_slot s ctx =
     (case ctx of
        None \<Rightarrow> Some (global_last_error s)
      | Some c \<Rightarrow> map_option last_error (contexts s c))"

text \<open>The live contexts whose \<^verbatim>\<open>model\<close> pointer is \<open>a\<close>.\<close>

definition referrers :: "(addr \<rightharpoonup> rwkv_context) \<Rightarrow> addr \<Rightarrow> addr set" where
  "referrers cs a = {c. \<exists>x. cs c = Some x \<and> model x = Some a}"

text \<open>
  The heap invariant of the API: every live context lies below \<open>next_addr\<close> and points to a
  live model; every live model lies below \<open>next_addr\<close> and its reference count is at least
  the number of live contexts that point to it.
\<close>

definition heap_ok :: "rwkv_state \<Rightarrow> bool" where
  "heap_ok s \<longleftrightarrow>
     (\<forall>c x. contexts s c = Some x \<longrightarrow>
        c < next_addr s \<and> model x \<in> Some ` dom (models s)) \<and>
     (\<forall>a m. models s a = Some m \<longrightarrow>
        a < next_addr s \<and> int (card (referrers (contexts s) a)) \<le> reference_count m)"

text \<open>
  The fields of a model that the two length accessors read, and the relation between two
  states in which every model of the first that is still allocated in the second has kept
  them.
\<close>

definition same_dimensions :: "rwkv_model \<Rightarrow> rwkv_model \<Rightarrow> bool" where
  "same_dimensions m m' \<longleftrightarrow>
     header m' = header m \<and> arch_version_major m' = arch_version_major m \<and>
     head_size m' = head_size m"

definition models_kept :: "rwkv_state \<Rightarrow> rwkv_state \<Rightarrow> bool" where
  "models_kept s s' \<longleftrightarrow>
     next_addr s \<le> next_addr s' \<and>
     (\<forall>a m'. a < next_addr s \<longrightarrow> models s' a = Some m' \<longrightarrow>
        (\<exists>m. models s a = Some m \<and> same_dimensions m m'))"

text \<open>
  The reference counts are exact when every live model's count is the number of live
  contexts that point to it. A call's construction succeeds when, once the context is
  allocated, nothing after it fails.
\<close>

definition counts_exact :: "rwkv_state \<Rightarrow> bool" where
  "counts_exact s \<longleftrightarrow>
     (\<forall>a m. models s a = Some m \<longrightarrow> reference_count m = int (card (referrers (contexts s) a)))"

fun construction_succeeds :: "api_call \<Rightarrow> bool" where
  "construction_succeeds (Init_from_file ca ma file graph n) =
     (\<not> ca \<or> (ma \<and> (case file of Load_ok hdr major hs \<Rightarrow> True | Load_failed err \<Rightarrow> False) \<and> graph = Build_ok))"
| "construction_succeeds (Clone_context ca graph ctx n) = (\<not> ca \<or> graph = Build_ok)"
| "construction_succeeds k = True"

text \<open>Example inputs.\<close>

definition no_objects :: rwkv_state where
  "no_objects =
     \<lparr>contexts = Map.empty, models = Map.empty, arenas = {}, next_addr = 16,
      global_last_error = 0, global_print_errors = False\<rparr>"

definition example_h :: rwkv_h where
  "example_h = \<lparr>RWKV_ERROR_NONE = 0, RWKV_ERROR_CTX = 1792, RWKV_ERROR_ALLOC = 1\<rparr>"

definition example_header :: rwkv_file_header where
  "example_header = \<lparr>n_vocab = 50277, n_embed = 768, n_layer = 12\<rparr>"

section \<open>Properties\<close>

subsection \<open>State length\<close>

lemma unat_ucast_32_64: "unat (ucast (x :: 32 word) :: 64 word) = unat x"
proof -
  have "unat x < 2 ^ 32"
    using unsigned_less [of x] by simp
  then have "unat x < 2 ^ 64"
    by simp
  then show ?thesis
    by (simp add: unsigned_ucast_eq take_bit_nat_eq_self)
qed

lemma rwkv_get_state_len_mod:
  assumes "ctx_model s ctx = Some m"
  shows "\<exists>r. rwkv_get_state_len s ctx = Some r \<and>
           unat r = state_len_spec (unat (arch_version_major m)) (unat (n_embed (header m)))
                      (unat (head_size m)) (unat (n_layer (header m))) mod 2 ^ 64"
proof (cases "5 \<le> arch_version_major m")
  case True
  then have "5 \<le> unat (arch_version_major m)"
    by (simp add: word_le_nat_alt)
  with True assms show ?thesis
    by (simp add: rwkv_get_state_len_def state_len_spec_def unat_word_ariths
        unat_ucast_32_64 mod_mult_left_eq mod_mult_right_eq)
next
  case False
  then have "\<not> 5 \<le> unat (arch_version_major m)"
    by (simp add: word_le_nat_alt)
  with False assms show ?thesis
    by (simp add: rwkv_get_state_len_def state_len_spec_def unat_word_ariths
        unat_ucast_32_64 mod_mult_left_eq mod_mult_right_eq)
qed

subsection \<open>What each call returns\<close>

lemma rwkv_init_from_file_no_context:
  "rwkv_init_from_file h False ma file graph n s =
     Some (None, s\<lparr>global_last_error := RWKV_ERROR_CTX h OR RWKV_ERROR_ALLOC h\<rparr>)"
  by (simp add: rwkv_init_from_file_def new_rwkv_context_def RWKV_ASSERT_NULL_MSG_failed_def Let_def)

lemma rwkv_init_from_file_no_model:
  "rwkv_init_from_file h True False file graph n s = None"
  by (simp add: rwkv_init_from_file_def new_rwkv_context_def new_rwkv_model_def Let_def)

lemma rwkv_init_from_file_load_failed:
  "rwkv_init_from_file h True True (Load_failed err) graph n s =
     Some (None,
           s\<lparr>contexts := (contexts s)(next_addr s := None),
             models := (models s)(Suc (next_addr s) \<mapsto>
               \<lparr>model_ggml_ctx = None, header = \<lparr>n_vocab = 0, n_embed = 0, n_layer = 0\<rparr>,
                arch_version_major = 0, head_size = 0, reference_count = 1\<rparr>),
             next_addr := Suc (Suc (next_addr s)),
             global_last_error := err\<rparr>)"
  by (simp add: rwkv_init_from_file_def new_rwkv_context_def new_rwkv_model_def
      update_context_def update_model_def rwkv_load_model_from_file_def delete_context_def Let_def)

lemma rwkv_init_from_file_build_failed:
  "rwkv_init_from_file h True True (Load_ok hdr major hs) (Build_failed err) n s =
     Some (None,
           s\<lparr>contexts := (contexts s)(next_addr s := None),
             models := (models s)(Suc (next_addr s) \<mapsto>
               \<lparr>model_ggml_ctx = Some (Suc (Suc (next_addr s))), header = hdr,
                arch_version_major = major, head_size = hs, reference_count = 1\<rparr>),
             arenas := insert (Suc (Suc (next_addr s))) (arenas s),
             next_addr := Suc (Suc (Suc (next_addr s))),
             global_last_error := err\<rparr>)"
  by (simp add: rwkv_init_from_file_def new_rwkv_context_def new_rwkv_model_def
      update_context_def update_model_def rwkv_load_model_from_file_def delete_context_def
      rwkv_measure_and_build_serial_context_def Let_def)

lemma rwkv_init_from_file_ok:
  "rwkv_init_from_file h True True (Load_ok hdr major hs) Build_ok n s =
     Some (Some (next_addr s),
           s\<lparr>contexts := (contexts s)(next_addr s \<mapsto>
               \<lparr>model = Some (Suc (next_addr s)), n_threads = n,
                serial_graph = \<lparr>graph_ggml_ctx = Some (Suc (Suc (Suc (next_addr s))))\<rparr>,
                sequential_graph = \<lparr>graph_ggml_ctx = None\<rparr>,
                last_used_sequence_length = 0, last_error = 0, print_errors = False\<rparr>),
             models := (models s)(Suc (next_addr s) \<mapsto>
               \<lparr>model_ggml_ctx = Some (Suc (Suc (next_addr s))), header = hdr,
                arch_version_major = major, head_size = hs, reference_count = 1\<rparr>),
             arenas := insert (Suc (Suc (Suc (next_addr s)))) (insert (Suc (Suc (next_addr s))) (arenas s)),
             next_addr := Suc (Suc (Suc (Suc (next_addr s)))),
             global_last_error := RWKV_ERROR_NONE h\<rparr>)"
  by (simp add: rwkv_init_from_file_def new_rwkv_context_def new_rwkv_model_def
      update_context_def update_model_def rwkv_load_model_from_file_def delete_context_def
      rwkv_measure_and_build_serial_context_def Let_def)

lemma rwkv_clone_context_no_context:
  "rwkv_clone_context h False graph ctx n s =
     Some (None, s\<lparr>global_last_error := RWKV_ERROR_CTX h OR RWKV_ERROR_ALLOC h\<rparr>)"
  by (simp add: rwkv_clone_context_def new_rwkv_context_def RWKV_ASSERT_NULL_MSG_failed_def)

lemma rwkv_clone_context_build_failed:
  assumes "contexts s c = Some x" and "c \<noteq> next_addr s" and "model x = Some a" and "models s a = Some m"
  shows "rwkv_clone_context h True (Build_failed err) (Some c) n s =
     Some (None,
           s\<lparr>contexts := (contexts s)(next_addr s := None),
             models := (models s)(a \<mapsto> m\<lparr>reference_count := reference_count m + 1\<rparr>),
             next_addr := Suc (next_addr s),
             global_last_error := err\<rparr>)"
  using assms
  by (simp add: rwkv_clone_context_def new_rwkv_context_def ctx_context_def
      update_context_def update_model_def delete_context_def
      rwkv_measure_and_build_serial_context_def Let_def)

lemma rwkv_clone_context_ok:
  assumes "contexts s c = Some x" and "c \<noteq> next_addr s" and "model x = Some a" and "models s a = Some m"
  shows "rwkv_clone_context h True Build_ok (Some c) n s =
     Some (Some (next_addr s),
           s\<lparr>contexts := (contexts s)(next_addr s \<mapsto>
               \<lparr>model = Some a, n_threads = n,
                serial_graph = \<lparr>graph_ggml_ctx = Some (Suc (next_addr s))\<rparr>,
                sequential_graph = \<lparr>graph_ggml_ctx = None\<rparr>,
                last_used_sequence_length = 0, last_error = 0, print_errors = print_errors x\<rparr>),
             models := (models s)(a \<mapsto> m\<lparr>reference_count := reference_count m + 1\<rparr>),
             arenas := insert (Suc (next_addr s)) (arenas s),
             next_addr := Suc (Suc (next_addr s))\<rparr>)"
  using assms
  by (simp add: rwkv_clone_context_def new_rwkv_context_def ctx_context_def
      update_context_def update_model_def delete_context_def
      rwkv_measure_and_build_serial_context_def Let_def)

lemma rwkv_clone_context_null: "rwkv_clone_context h True graph None n s = None"
  by (simp add: rwkv_clone_context_def new_rwkv_context_def ctx_context_def)

lemma rwkv_clone_context_dangling:
  "contexts s c = None \<Longrightarrow> rwkv_clone_context h True graph (Some c) n s = None"
  by (simp add: rwkv_clone_context_def new_rwkv_context_def ctx_context_def update_context_def Let_def)

lemma ggml_free_arenas: "ggml_free p s = s\<lparr>arenas := arenas s - set_option p\<rparr>"
  by (cases p) (simp_all add: ggml_free_def)

lemma rwkv_free_live:
  assumes "contexts s c = Some x" and "model x = Some a" and "models s a = Some m"
  shows "rwkv_free (Some c) s =
     Some (s\<lparr>contexts := (contexts s)(c := None),
             models := (if reference_count m - 1 = 0 then (models s)(a := None)
                        else (models s)(a \<mapsto> m\<lparr>reference_count := reference_count m - 1\<rparr>)),
             arenas := arenas s
               - (if reference_count m - 1 = 0 then set_option (model_ggml_ctx m) else {})
               - set_option (graph_ggml_ctx (serial_graph x))
               - (if 0 < last_used_sequence_length x
                  then set_option (graph_ggml_ctx (sequential_graph x)) else {})\<rparr>)"
  using assms
  by (simp add: rwkv_free_def ggml_free_arenas update_model_def delete_model_def
      delete_context_def Let_def)

lemma rwkv_free_dangling:
  "contexts s c = None \<Longrightarrow> rwkv_free (Some c) s = None"
  by (simp add: rwkv_free_def)

subsection \<open>The heap invariant\<close>

lemma referrers_upd:
  "referrers (cs(c \<mapsto> y)) a = (if model y = Some a then insert c (referrers cs a) else referrers cs a - {c})"
  by (auto simp: referrers_def)

lemma referrers_del: "referrers (cs(c := None)) a = referrers cs a - {c}"
  by (auto simp: referrers_def)

lemma referrers_subset_dom: "referrers cs a \<subseteq> dom cs"
  by (auto simp: referrers_def)

lemma heap_ok_finite: "heap_ok s \<Longrightarrow> finite (referrers (contexts s) a)"
proof -
  assume "heap_ok s"
  then have "dom (contexts s) \<subseteq> {..<next_addr s}"
    by (auto simp: heap_ok_def)
  then have "finite (dom (contexts s))"
    by (rule finite_subset) simp
  with referrers_subset_dom show ?thesis
    by (rule finite_subset)
qed

lemma heap_ok_fresh:
  assumes "heap_ok s" and "next_addr s \<le> n"
  shows "contexts s n = None" and "models s n = None" and "n \<notin> referrers (contexts s) a"
    and "referrers (contexts s) n = {}"
proof -
  show c: "contexts s n = None"
  proof (cases "contexts s n")
    case (Some x)
    with assms(1) have "n < next_addr s" by (simp add: heap_ok_def)
    with assms(2) show ?thesis by simp
  qed simp
  show m: "models s n = None"
  proof (cases "models s n")
    case (Some x)
    with assms(1) have "n < next_addr s" by (simp add: heap_ok_def)
    with assms(2) show ?thesis by simp
  qed simp
  from c show "n \<notin> referrers (contexts s) a"
    by (simp add: referrers_def)
  show "referrers (contexts s) n = {}"
  proof (rule ccontr)
    assume "referrers (contexts s) n \<noteq> {}"
    then obtain c x where "contexts s c = Some x" "model x = Some n"
      by (auto simp: referrers_def)
    with assms(1) have "models s n \<noteq> None"
      by (force simp: heap_ok_def)
    with m show False by simp
  qed
qed

lemma heap_okI:
  assumes "\<And>c x. contexts s c = Some x \<Longrightarrow> c < next_addr s"
    and "\<And>c x. contexts s c = Some x \<Longrightarrow> model x \<in> Some ` dom (models s)"
    and "\<And>a m. models s a = Some m \<Longrightarrow> a < next_addr s"
    and "\<And>a m. models s a = Some m \<Longrightarrow> int (card (referrers (contexts s) a)) \<le> reference_count m"
  shows "heap_ok s"
  using assms unfolding heap_ok_def by blast

lemma heap_ok_context_below: "heap_ok s \<Longrightarrow> contexts s c = Some x \<Longrightarrow> c < next_addr s"
  unfolding heap_ok_def by blast

lemma heap_ok_context_model:
  "heap_ok s \<Longrightarrow> contexts s c = Some x \<Longrightarrow> \<exists>a m. model x = Some a \<and> models s a = Some m"
  unfolding heap_ok_def by blast

lemma heap_ok_model_below: "heap_ok s \<Longrightarrow> models s a = Some m \<Longrightarrow> a < next_addr s"
  unfolding heap_ok_def by blast

lemma heap_ok_count:
  "heap_ok s \<Longrightarrow> models s a = Some m \<Longrightarrow> int (card (referrers (contexts s) a)) \<le> reference_count m"
  unfolding heap_ok_def by blast

lemma heap_ok_same:
  assumes "heap_ok s" and "contexts s' = contexts s" and "models s' = models s"
    and "next_addr s \<le> next_addr s'"
  shows "heap_ok s'"
  using assms unfolding heap_ok_def by (metis less_le_trans)

lemma heap_ok_context_fields:
  assumes ok: "heap_ok s" and x: "contexts s c = Some x"
    and cs: "contexts s' = (contexts s)(c \<mapsto> x')" and mx: "model x' = model x"
    and ms: "models s' = models s" and n: "next_addr s \<le> next_addr s'"
  shows "heap_ok s'"
proof (rule heap_okI)
  have r: "referrers (contexts s') a = referrers (contexts s) a" for a
    using x mx by (auto simp: cs referrers_def)
  show "c' < next_addr s'" if "contexts s' c' = Some y" for c' y
    using that n x heap_ok_context_below [OF ok, of c'] by (auto simp: cs split: if_splits)
  show "model y \<in> Some ` dom (models s')" if "contexts s' c' = Some y" for c' y
    using that x mx heap_ok_context_model [OF ok, of c'] by (auto simp: cs ms split: if_splits)
  show "a < next_addr s'" if "models s' a = Some m" for a m
    using that n heap_ok_model_below [OF ok, of a m] by (simp add: ms)
  show "int (card (referrers (contexts s') a)) \<le> reference_count m" if "models s' a = Some m" for a m
    using that heap_ok_count [OF ok, of a m] by (simp add: ms r)
qed

lemma heap_ok_attach:
  assumes ok: "heap_ok s"
    and cs: "contexts s' = (contexts s)(next_addr s := r)"
    and r: "\<And>y. r = Some y \<Longrightarrow> model y = Some a"
    and ms: "models s' = (models s)(a \<mapsto> m')"
    and n: "next_addr s < next_addr s'" and a: "a < next_addr s'"
    and cnt: "int (card (referrers (contexts s) a)) + 1 \<le> reference_count m'"
  shows "heap_ok s'"
proof (rule heap_okI)
  have fin: "finite (referrers (contexts s) b)" for b
    using heap_ok_finite [OF ok] .
  have sub: "referrers (contexts s') b \<subseteq> (if b = a then insert (next_addr s) (referrers (contexts s) b) else referrers (contexts s) b)" for b
    using r by (auto simp: cs referrers_def split: if_splits)
  show "c < next_addr s'" if "contexts s' c = Some y" for c y
    using that n heap_ok_context_below [OF ok, of c] by (auto simp: cs split: if_splits)
  show "model y \<in> Some ` dom (models s')" if "contexts s' c = Some y" for c y
    using that r heap_ok_context_model [OF ok, of c] by (auto simp: cs ms split: if_splits)
  show "b < next_addr s'" if "models s' b = Some m" for b m
    using that n a heap_ok_model_below [OF ok, of b m] by (auto simp: ms split: if_splits)
  show "int (card (referrers (contexts s') b)) \<le> reference_count m" if "models s' b = Some m" for b m
  proof (cases "b = a")
    case True
    with that have "m = m'" by (simp add: ms)
    have "card (referrers (contexts s') a) \<le> card (insert (next_addr s) (referrers (contexts s) a))"
      using sub [of a] fin [of a] by (intro card_mono) auto
    also have "\<dots> \<le> card (referrers (contexts s) a) + 1"
      using fin [of a] by (simp add: card_insert_if)
    finally show ?thesis
      using cnt True \<open>m = m'\<close> by simp
  next
    case False
    with that have m: "models s b = Some m" by (simp add: ms)
    have "card (referrers (contexts s') b) \<le> card (referrers (contexts s) b)"
      using sub [of b] fin [of b] False by (intro card_mono) auto
    with heap_ok_count [OF ok m] show ?thesis by simp
  qed
qed

lemma heap_ok_detach:
  assumes ok: "heap_ok s" and x: "contexts s c = Some x" and mx: "model x = Some a"
    and m: "models s a = Some m"
    and cs: "contexts s' = (contexts s)(c := None)"
    and ms: "models s' = (if reference_count m - 1 = 0 then (models s)(a := None)
                          else (models s)(a \<mapsto> m'))"
    and m': "reference_count m' = reference_count m - 1"
    and n: "next_addr s' = next_addr s"
  shows "heap_ok s'"
proof (rule heap_okI)
  have fin: "finite (referrers (contexts s) b)" for b
    using heap_ok_finite [OF ok] .
  have rs: "referrers (contexts s') b = referrers (contexts s) b - {c}" for b
    by (simp add: cs referrers_del)
  have c_in: "c \<in> referrers (contexts s) a"
    using x mx by (simp add: referrers_def)
  have less: "int (card (referrers (contexts s') a)) \<le> reference_count m - 1"
  proof -
    have "0 < card (referrers (contexts s) a)"
      using c_in fin [of a] by (auto simp: card_gt_0_iff)
    moreover have "card (referrers (contexts s') a) = card (referrers (contexts s) a) - 1"
      using c_in by (simp add: rs)
    ultimately have "int (card (referrers (contexts s') a)) = int (card (referrers (contexts s) a)) - 1"
      by simp
    with heap_ok_count [OF ok m] show ?thesis by simp
  qed
  show "c' < next_addr s'" if "contexts s' c' = Some y" for c' y
    using that heap_ok_context_below [OF ok, of c'] by (auto simp: cs n split: if_splits)
  show "model y \<in> Some ` dom (models s')" if "contexts s' c' = Some y" for c' y
  proof -
    from that have c': "c' \<noteq> c" "contexts s c' = Some y"
      by (auto simp: cs split: if_splits)
    from heap_ok_context_model [OF ok c'(2)] obtain b mb where b: "model y = Some b" "models s b = Some mb"
      by blast
    show ?thesis
    proof (cases "b = a \<and> reference_count m - 1 = 0")
      case True
      with c' b have "c' \<in> referrers (contexts s') a"
        unfolding rs by (simp add: referrers_def)
      then have "0 < card (referrers (contexts s') a)"
        using fin [of a] by (auto simp: rs card_gt_0_iff)
      with less True show ?thesis by simp
    next
      case False
      with b show ?thesis by (auto simp: ms)
    qed
  qed
  show "b < next_addr s'" if "models s' b = Some mb" for b mb
    using that m heap_ok_model_below [OF ok, of b] by (auto simp: ms n split: if_splits)
  show "int (card (referrers (contexts s') b)) \<le> reference_count mb" if "models s' b = Some mb" for b mb
  proof (cases "b = a")
    case True
    with that have "mb = m'" by (auto simp: ms split: if_splits)
    with less m' True show ?thesis by simp
  next
    case False
    with that have mb: "models s b = Some mb" by (auto simp: ms split: if_splits)
    have "card (referrers (contexts s') b) \<le> card (referrers (contexts s) b)"
      using fin [of b] by (intro card_mono) (auto simp: rs)
    with heap_ok_count [OF ok mb] show ?thesis by simp
  qed
qed

lemma rwkv_init_from_file_heap_ok:
  assumes ok: "heap_ok s" and r: "rwkv_init_from_file h ca ma file graph n s = Some (p, s')"
  shows "heap_ok s'"
proof (cases ca)
  case False
  with r have "s' = s\<lparr>global_last_error := RWKV_ERROR_CTX h OR RWKV_ERROR_ALLOC h\<rparr>"
    by (simp add: rwkv_init_from_file_no_context)
  with ok show ?thesis
    by (simp add: heap_ok_same)
next
  case ca: True
  show ?thesis
  proof (cases ma)
    case False
    with ca r show ?thesis
      by (simp add: rwkv_init_from_file_no_model)
  next
    case ma: True
    have empty: "referrers (contexts s) (Suc (next_addr s)) = {}"
      using heap_ok_fresh(4) [OF ok, of "Suc (next_addr s)"] by simp
    show ?thesis
    proof (cases "file")
      case (Load_failed err)
      with ca ma r show ?thesis
        by (auto simp: rwkv_init_from_file_load_failed empty intro!: heap_ok_attach [OF ok, where r = None])
    next
      case (Load_ok hdr major hs)
      show ?thesis
      proof (cases graph)
        case (Build_failed err)
        with ca ma Load_ok r show ?thesis
          by (auto simp: rwkv_init_from_file_build_failed empty intro!: heap_ok_attach [OF ok, where r = None])
      next
        case Build_ok
        with ca ma Load_ok r show ?thesis
          by (auto simp: rwkv_init_from_file_ok empty intro!: heap_ok_attach [OF ok])
      qed
    qed
  qed
qed

lemma rwkv_clone_context_heap_ok:
  assumes ok: "heap_ok s" and r: "rwkv_clone_context h ca graph ctx n s = Some (p, s')"
  shows "heap_ok s'"
proof (cases ca)
  case False
  with r have "s' = s\<lparr>global_last_error := RWKV_ERROR_CTX h OR RWKV_ERROR_ALLOC h\<rparr>"
    by (simp add: rwkv_clone_context_no_context)
  with ok show ?thesis
    by (simp add: heap_ok_same)
next
  case ca: True
  from ca r obtain c where c: "ctx = Some c"
    by (cases ctx) (simp_all add: rwkv_clone_context_null)
  from ca r c obtain x where x: "contexts s c = Some x"
    by (cases "contexts s c") (simp_all add: rwkv_clone_context_dangling)
  from heap_ok_context_model [OF ok x] obtain a m where a: "model x = Some a" "models s a = Some m"
    by blast
  from heap_ok_context_below [OF ok x] have ne: "c \<noteq> next_addr s"
    by simp
  from heap_ok_model_below [OF ok a(2)] have below: "a < next_addr s" .
  note cnt = heap_ok_count [OF ok a(2)]
  show ?thesis
  proof (cases graph)
    case (Build_failed err)
    with ca c r below cnt show ?thesis
      by (auto simp: rwkv_clone_context_build_failed [OF x ne a] intro!: heap_ok_attach [OF ok, where r = None])
  next
    case Build_ok
    with ca c r below cnt show ?thesis
      by (auto simp: rwkv_clone_context_ok [OF x ne a] intro!: heap_ok_attach [OF ok])
  qed
qed

lemma rwkv_free_heap_ok:
  assumes ok: "heap_ok s" and r: "rwkv_free ctx s = Some s'"
  shows "heap_ok s'"
proof (cases ctx)
  case None
  with r ok show ?thesis
    by (simp add: rwkv_free_def)
next
  case (Some c)
  with r obtain x where x: "contexts s c = Some x"
    by (cases "contexts s c") (simp_all add: rwkv_free_dangling)
  from heap_ok_context_model [OF ok x] obtain a m where a: "model x = Some a" "models s a = Some m"
    by blast
  from r Some show ?thesis
    by (auto simp: rwkv_free_live [OF x a] intro!: heap_ok_detach [OF ok x a])
qed

lemma rwkv_set_print_errors_heap_ok:
  assumes ok: "heap_ok s" and r: "rwkv_set_print_errors ctx b s = Some s'"
  shows "heap_ok s'"
proof (cases ctx)
  case None
  with r ok show ?thesis
    by (auto simp: rwkv_set_print_errors_def intro: heap_ok_same)
next
  case (Some c)
  with r obtain x where x: "contexts s c = Some x"
    by (cases "contexts s c") (simp_all add: rwkv_set_print_errors_def)
  with r Some show ?thesis
    by (auto simp: rwkv_set_print_errors_def update_context_def
        intro!: heap_ok_context_fields [OF ok x])
qed

lemma rwkv_get_last_error_heap_ok:
  assumes ok: "heap_ok s" and r: "rwkv_get_last_error h ctx s = Some (v, s')"
  shows "heap_ok s'"
proof (cases ctx)
  case None
  with r ok show ?thesis
    by (auto simp: rwkv_get_last_error_def intro: heap_ok_same)
next
  case (Some c)
  with r obtain x where x: "contexts s c = Some x"
    by (cases "contexts s c") (simp_all add: rwkv_get_last_error_def)
  with r Some show ?thesis
    by (auto simp: rwkv_get_last_error_def update_context_def
        intro!: heap_ok_context_fields [OF ok x])
qed

lemma api_step_heap_ok:
  assumes "heap_ok s" and "api_step h k s = Some s'"
  shows "heap_ok s'"
  using assms
  by (cases k)
    (auto intro: rwkv_init_from_file_heap_ok rwkv_clone_context_heap_ok rwkv_free_heap_ok rwkv_set_print_errors_heap_ok
      rwkv_get_last_error_heap_ok)

lemma api_run_heap_ok:
  "heap_ok s \<Longrightarrow> api_run h ks s = Some s' \<Longrightarrow> heap_ok s'"
proof (induction ks arbitrary: s)
  case Nil
  then show ?case by simp
next
  case (Cons k ks)
  then show ?case
    by (auto split: option.splits intro: api_step_heap_ok)
qed

subsection \<open>Models keep their dimensions\<close>

lemma models_kept_refl: "models_kept s s"
  by (simp add: models_kept_def same_dimensions_def)

lemma models_kept_trans:
  assumes "models_kept s s'" and "models_kept s' s''"
  shows "models_kept s s''"
  unfolding models_kept_def
proof (intro conjI allI impI)
  from assms show "next_addr s \<le> next_addr s''"
    by (simp add: models_kept_def)
next
  fix a m''
  assume a: "a < next_addr s" and m'': "models s'' a = Some m''"
  from assms(1) a have "a < next_addr s'"
    by (simp add: models_kept_def)
  with assms(2) m'' obtain m' where m': "models s' a = Some m'" "same_dimensions m' m''"
    unfolding models_kept_def by blast
  with assms(1) a obtain m where "models s a = Some m" "same_dimensions m m'"
    unfolding models_kept_def by blast
  with m' show "\<exists>m. models s a = Some m \<and> same_dimensions m m''"
    by (auto simp: same_dimensions_def)
qed

lemma rwkv_init_from_file_models_kept:
  assumes r: "rwkv_init_from_file h ca ma file graph n s = Some (p, s')"
  shows "models_kept s s'"
proof (cases ca)
  case False
  with r show ?thesis
    by (auto simp: rwkv_init_from_file_no_context models_kept_def same_dimensions_def)
next
  case ca: True
  show ?thesis
  proof (cases ma)
    case False
    with ca r show ?thesis
      by (simp add: rwkv_init_from_file_no_model)
  next
    case ma: True
    show ?thesis
    proof (cases "file")
      case (Load_failed err)
      with ca ma r show ?thesis
        by (auto simp: rwkv_init_from_file_load_failed models_kept_def same_dimensions_def)
    next
      case (Load_ok hdr major hs)
      with ca ma r show ?thesis
        by (cases graph) (auto simp: rwkv_init_from_file_build_failed rwkv_init_from_file_ok models_kept_def same_dimensions_def)
    qed
  qed
qed

lemma rwkv_clone_context_models_kept:
  assumes ok: "heap_ok s" and r: "rwkv_clone_context h ca graph ctx n s = Some (p, s')"
  shows "models_kept s s'"
proof (cases ca)
  case False
  with r show ?thesis
    by (auto simp: rwkv_clone_context_no_context models_kept_def same_dimensions_def)
next
  case ca: True
  from ca r obtain c where c: "ctx = Some c"
    by (cases ctx) (simp_all add: rwkv_clone_context_null)
  from ca r c obtain x where x: "contexts s c = Some x"
    by (cases "contexts s c") (simp_all add: rwkv_clone_context_dangling)
  from heap_ok_context_model [OF ok x] obtain a m where a: "model x = Some a" "models s a = Some m"
    by blast
  from heap_ok_context_below [OF ok x] have ne: "c \<noteq> next_addr s"
    by simp
  from ca c r show ?thesis
    by (cases graph)
      (auto simp: rwkv_clone_context_build_failed [OF x ne a] rwkv_clone_context_ok [OF x ne a] a models_kept_def
        same_dimensions_def split: if_splits)
qed

lemma rwkv_free_models_kept:
  assumes ok: "heap_ok s" and r: "rwkv_free ctx s = Some s'"
  shows "models_kept s s'"
proof (cases ctx)
  case None
  with r show ?thesis
    by (simp add: rwkv_free_def models_kept_refl)
next
  case (Some c)
  with r obtain x where x: "contexts s c = Some x"
    by (cases "contexts s c") (simp_all add: rwkv_free_dangling)
  from heap_ok_context_model [OF ok x] obtain a m where a: "model x = Some a" "models s a = Some m"
    by blast
  from r Some show ?thesis
    by (auto simp: rwkv_free_live [OF x a] a models_kept_def same_dimensions_def split: if_splits)
qed

lemma rwkv_set_print_errors_models_kept:
  assumes "rwkv_set_print_errors ctx b s = Some s'"
  shows "models_kept s s'"
  using assms
  by (auto simp: rwkv_set_print_errors_def update_context_def models_kept_def same_dimensions_def
      split: option.splits)

lemma rwkv_get_last_error_models_kept:
  assumes "rwkv_get_last_error h ctx s = Some (v, s')"
  shows "models_kept s s'"
  using assms
  by (auto simp: rwkv_get_last_error_def update_context_def models_kept_def same_dimensions_def
      split: option.splits)

lemma api_step_models_kept:
  assumes "heap_ok s" and "api_step h k s = Some s'"
  shows "models_kept s s'"
  using assms
  by (cases k)
    (auto intro: rwkv_init_from_file_models_kept rwkv_clone_context_models_kept rwkv_free_models_kept rwkv_set_print_errors_models_kept
      rwkv_get_last_error_models_kept)

lemma api_run_models_kept:
  "heap_ok s \<Longrightarrow> api_run h ks s = Some s' \<Longrightarrow> models_kept s s'"
proof (induction ks arbitrary: s)
  case Nil
  then show ?case by (simp add: models_kept_refl)
next
  case (Cons k ks)
  from Cons.prems obtain s1 where s1: "api_step h k s = Some s1" "api_run h ks s1 = Some s'"
    by (auto split: option.splits)
  from Cons.prems(1) s1(1) have "heap_ok s1" "models_kept s s1"
    by (rule api_step_heap_ok, rule api_step_models_kept)
  with Cons.IH [OF _ s1(2)] show ?case
    by (blast intro: models_kept_trans)
qed


subsection \<open>Exact reference counts while no construction fails\<close>

lemma counts_exact_same:
  assumes "counts_exact s" and "contexts s' = contexts s" and "models s' = models s"
  shows "counts_exact s'"
  using assms by (simp add: counts_exact_def)

lemma counts_exact_context_fields:
  assumes ex: "counts_exact s" and x: "contexts s c = Some x"
    and cs: "contexts s' = (contexts s)(c \<mapsto> x')" and mx: "model x' = model x"
    and ms: "models s' = models s"
  shows "counts_exact s'"
proof -
  have "referrers (contexts s') a = referrers (contexts s) a" for a
    using x mx by (auto simp: cs referrers_def)
  with ex show ?thesis
    by (simp add: counts_exact_def ms)
qed

lemma counts_exact_attach:
  assumes ok: "heap_ok s" and ex: "counts_exact s"
    and cs: "contexts s' = (contexts s)(next_addr s \<mapsto> y)"
    and y: "model y = Some a"
    and ms: "models s' = (models s)(a \<mapsto> m')"
    and cnt: "reference_count m' = int (card (referrers (contexts s) a)) + 1"
  shows "counts_exact s'"
  unfolding counts_exact_def
proof (intro allI impI)
  fix b m
  assume m: "models s' b = Some m"
  have fin: "finite (referrers (contexts s) b)"
    using heap_ok_finite [OF ok] .
  have fresh: "next_addr s \<notin> referrers (contexts s) b"
    using heap_ok_fresh(3) [OF ok, of "next_addr s"] by simp
  show "reference_count m = int (card (referrers (contexts s') b))"
  proof (cases "b = a")
    case True
    with m have "m = m'" by (simp add: ms)
    moreover have "referrers (contexts s') a = insert (next_addr s) (referrers (contexts s) a)"
      using y by (simp add: cs referrers_upd)
    ultimately show ?thesis
      using cnt fin fresh True by simp
  next
    case False
    with m have "models s b = Some m" by (simp add: ms)
    moreover have "referrers (contexts s') b = referrers (contexts s) b"
      using y False fresh by (auto simp: cs referrers_upd)
    ultimately show ?thesis
      using ex by (simp add: counts_exact_def)
  qed
qed

lemma counts_exact_detach:
  assumes ok: "heap_ok s" and ex: "counts_exact s"
    and x: "contexts s c = Some x" and mx: "model x = Some a" and m: "models s a = Some m"
    and cs: "contexts s' = (contexts s)(c := None)"
    and ms: "models s' = (if reference_count m - 1 = 0 then (models s)(a := None)
                          else (models s)(a \<mapsto> m'))"
    and m': "reference_count m' = reference_count m - 1"
  shows "counts_exact s'"
  unfolding counts_exact_def
proof (intro allI impI)
  fix b mb
  assume mb: "models s' b = Some mb"
  have fin: "finite (referrers (contexts s) b)"
    using heap_ok_finite [OF ok] .
  have rs: "referrers (contexts s') b = referrers (contexts s) b - {c}"
    by (simp add: cs referrers_del)
  show "reference_count mb = int (card (referrers (contexts s') b))"
  proof (cases "b = a")
    case True
    with mb have "mb = m'" by (auto simp: ms split: if_splits)
    have c_in: "c \<in> referrers (contexts s) a"
      using x mx by (simp add: referrers_def)
    then have "0 < card (referrers (contexts s) a)"
      using fin True by (auto simp: card_gt_0_iff)
    moreover have "card (referrers (contexts s') a) = card (referrers (contexts s) a) - 1"
      using c_in rs True by simp
    ultimately have "int (card (referrers (contexts s') a)) = int (card (referrers (contexts s) a)) - 1"
      by simp
    with ex m m' \<open>mb = m'\<close> True show ?thesis
      by (simp add: counts_exact_def)
  next
    case False
    with mb have b: "models s b = Some mb" by (auto simp: ms split: if_splits)
    have "c \<notin> referrers (contexts s) b"
      using x mx False by (simp add: referrers_def)
    then have "referrers (contexts s') b = referrers (contexts s) b"
      by (simp add: rs)
    with ex b show ?thesis
      by (simp add: counts_exact_def)
  qed
qed

lemma rwkv_init_from_file_counts_exact:
  assumes ok: "heap_ok s" and ex: "counts_exact s"
    and good: "construction_succeeds (Init_from_file ca ma file graph n)"
    and r: "rwkv_init_from_file h ca ma file graph n s = Some (p, s')"
  shows "counts_exact s'"
proof (cases ca)
  case False
  with r have "s' = s\<lparr>global_last_error := RWKV_ERROR_CTX h OR RWKV_ERROR_ALLOC h\<rparr>"
    by (simp add: rwkv_init_from_file_no_context)
  with ex show ?thesis
    by (simp add: counts_exact_same)
next
  case True
  with good obtain hdr major hs where "ma" "file = Load_ok hdr major hs" "graph = Build_ok"
    by (cases "file") auto
  moreover have "referrers (contexts s) (Suc (next_addr s)) = {}"
    using heap_ok_fresh(4) [OF ok, of "Suc (next_addr s)"] by simp
  ultimately show ?thesis
    using True r
    by (auto simp: rwkv_init_from_file_ok intro!: counts_exact_attach [OF ok ex])
qed

lemma rwkv_clone_context_counts_exact:
  assumes ok: "heap_ok s" and ex: "counts_exact s"
    and good: "construction_succeeds (Clone_context ca graph ctx n)"
    and r: "rwkv_clone_context h ca graph ctx n s = Some (p, s')"
  shows "counts_exact s'"
proof (cases ca)
  case False
  with r have "s' = s\<lparr>global_last_error := RWKV_ERROR_CTX h OR RWKV_ERROR_ALLOC h\<rparr>"
    by (simp add: rwkv_clone_context_no_context)
  with ex show ?thesis
    by (simp add: counts_exact_same)
next
  case ca: True
  with good have graph: "graph = Build_ok"
    by simp
  from ca r obtain c where c: "ctx = Some c"
    by (cases ctx) (simp_all add: rwkv_clone_context_null)
  from ca r c obtain x where x: "contexts s c = Some x"
    by (cases "contexts s c") (simp_all add: rwkv_clone_context_dangling)
  from heap_ok_context_model [OF ok x] obtain a m where a: "model x = Some a" "models s a = Some m"
    by blast
  from heap_ok_context_below [OF ok x] have ne: "c \<noteq> next_addr s"
    by simp
  from ex a(2) have "reference_count m = int (card (referrers (contexts s) a))"
    by (simp add: counts_exact_def)
  with ca c graph r show ?thesis
    by (auto simp: rwkv_clone_context_ok [OF x ne a] intro!: counts_exact_attach [OF ok ex])
qed

lemma rwkv_free_counts_exact:
  assumes ok: "heap_ok s" and ex: "counts_exact s" and r: "rwkv_free ctx s = Some s'"
  shows "counts_exact s'"
proof (cases ctx)
  case None
  with r ex show ?thesis
    by (simp add: rwkv_free_def)
next
  case (Some c)
  with r obtain x where x: "contexts s c = Some x"
    by (cases "contexts s c") (simp_all add: rwkv_free_dangling)
  from heap_ok_context_model [OF ok x] obtain a m where a: "model x = Some a" "models s a = Some m"
    by blast
  from r Some show ?thesis
    by (auto simp: rwkv_free_live [OF x a] intro!: counts_exact_detach [OF ok ex x a])
qed

lemma rwkv_set_print_errors_counts_exact:
  assumes ex: "counts_exact s" and r: "rwkv_set_print_errors ctx b s = Some s'"
  shows "counts_exact s'"
proof (cases ctx)
  case None
  with r ex show ?thesis
    by (auto simp: rwkv_set_print_errors_def intro: counts_exact_same)
next
  case (Some c)
  with r obtain x where x: "contexts s c = Some x"
    by (cases "contexts s c") (simp_all add: rwkv_set_print_errors_def)
  with r Some show ?thesis
    by (auto simp: rwkv_set_print_errors_def update_context_def
        intro!: counts_exact_context_fields [OF ex x])
qed

lemma rwkv_get_last_error_counts_exact:
  assumes ex: "counts_exact s" and r: "rwkv_get_last_error h ctx s = Some (v, s')"
  shows "counts_exact s'"
proof (cases ctx)
  case None
  with r ex show ?thesis
    by (auto simp: rwkv_get_last_error_def intro: counts_exact_same)
next
  case (Some c)
  with r obtain x where x: "contexts s c = Some x"
    by (cases "contexts s c") (simp_all add: rwkv_get_last_error_def)
  with r Some show ?thesis
    by (auto simp: rwkv_get_last_error_def update_context_def
        intro!: counts_exact_context_fields [OF ex x])
qed

lemma api_step_counts_exact:
  assumes "heap_ok s" and "counts_exact s" and "construction_succeeds k"
    and "api_step h k s = Some s'"
  shows "counts_exact s'"
proof (cases k)
  case (Init_from_file ca ma f graph n)
  with assms show ?thesis
    by (auto intro: rwkv_init_from_file_counts_exact)
next
  case (Clone_context ca graph ctx n)
  with assms show ?thesis
    by (auto intro: rwkv_clone_context_counts_exact)
next
  case (Free ctx)
  with assms show ?thesis
    by (auto intro: rwkv_free_counts_exact)
next
  case (Set_print_errors ctx b)
  with assms show ?thesis
    by (auto intro: rwkv_set_print_errors_counts_exact)
next
  case (Get_last_error ctx)
  with assms show ?thesis
    by (auto intro: rwkv_get_last_error_counts_exact)
qed

lemma api_run_counts_exact:
  "heap_ok s \<Longrightarrow> counts_exact s \<Longrightarrow> list_all construction_succeeds ks \<Longrightarrow>
   api_run h ks s = Some s' \<Longrightarrow> counts_exact s'"
proof (induction ks arbitrary: s)
  case Nil
  then show ?case by simp
next
  case (Cons k ks)
  from Cons.prems(4) obtain s1 where s1: "api_step h k s = Some s1" "api_run h ks s1 = Some s'"
    by (auto split: option.splits)
  from Cons.prems s1(1) have "heap_ok s1" "counts_exact s1"
    by (auto intro: api_step_heap_ok api_step_counts_exact)
  with Cons.IH [OF _ _ _ s1(2)] Cons.prems(3) show ?case
    by simp
qed

subsection \<open>Evaluation on concrete inputs\<close>

lemmas rwkv_api_defs =
  rwkv_init_from_file_def rwkv_clone_context_def rwkv_free_def rwkv_set_print_errors_def
  rwkv_get_last_error_def new_rwkv_context_def new_rwkv_model_def delete_context_def
  delete_model_def update_context_def update_model_def ctx_context_def ctx_model_def
  ggml_free_def RWKV_ASSERT_NULL_MSG_failed_def rwkv_load_model_from_file_def
  rwkv_measure_and_build_serial_context_def Let_def

section \<open>The claims\<close>

text \<open>
  C1: for every loaded model, the state buffer element count returned by
  \<^verbatim>\<open>rwkv_get_state_len\<close> is embedding width * (2 + head width) * layer count when the
  architecture major version is at least 5, and embedding width * 5 * layer count
  otherwise; it is a function of these four fields of the model and of nothing else.
  The count is the length of a buffer in memory, so the product is below \<open>2 ^ 64\<close>, the
  range of \<^verbatim>\<open>size_t\<close>; the head width is \<^verbatim>\<open>head_size\<close> read as an unsigned
  number.
\<close>

theorem rwkv_get_state_len_correct:
  assumes "contexts s c = Some x" and "model x = Some a" and "models s a = Some m"
    and "state_len_spec (unat (arch_version_major m)) (unat (n_embed (header m)))
           (unat (head_size m)) (unat (n_layer (header m))) < 2 ^ 64"
  shows "\<exists>r. rwkv_get_state_len s (Some c) = Some r \<and>
           unat r = state_len_spec (unat (arch_version_major m)) (unat (n_embed (header m)))
                      (unat (head_size m)) (unat (n_layer (header m)))"
proof -
  from assms(1-3) have "ctx_model s (Some c) = Some m"
    by (simp add: ctx_model_def ctx_context_def)
  from rwkv_get_state_len_mod [OF this] assms(4) show ?thesis
    by simp
qed

theorem rwkv_get_state_len_correct_witness:
  "\<exists>s r. rwkv_init_from_file example_h True True (Load_ok example_header 5 64) Build_ok 4
            no_objects = Some (Some 16, s) \<and>
         rwkv_get_state_len s (Some 16) = Some r \<and> unat r = 608256"
proof -
  let ?x = "\<lparr>model = Some 17, n_threads = 4,
             serial_graph = \<lparr>graph_ggml_ctx = Some 19\<rparr>,
             sequential_graph = \<lparr>graph_ggml_ctx = None\<rparr>,
             last_used_sequence_length = 0, last_error = 0, print_errors = False\<rparr>"
  let ?m = "\<lparr>model_ggml_ctx = Some 18, header = example_header,
             arch_version_major = 5, head_size = 64, reference_count = 1\<rparr>"
  let ?s = "no_objects\<lparr>contexts := [16 \<mapsto> ?x], models := [17 \<mapsto> ?m],
             arenas := {19, 18}, next_addr := 20, global_last_error := 0\<rparr>"
  have init: "rwkv_init_from_file example_h True True (Load_ok example_header 5 64) Build_ok 4
                no_objects = Some (Some 16, ?s)"
    by (simp add: rwkv_init_from_file_ok no_objects_def example_h_def)
  have "\<exists>r. rwkv_get_state_len ?s (Some 16) = Some r \<and> unat r = 608256"
    using rwkv_get_state_len_correct [of ?s 16 ?x 17 ?m]
    by (simp add: state_len_spec_def example_header_def)
  with init show ?thesis
    by blast
qed

text \<open>
  C3: when construction fails, init and clone should return a null handle and release every
  partial allocation. \<^verbatim>\<open>rwkv_init_from_file\<close> does not: the context is owned by a
  \<^verbatim>\<open>unique_ptr\<close> and is deleted, the model it points to is not. When the load fails
  the call returns NULL, no context is left and the model object stays allocated with
  reference count 1; when the graph build fails the model stays allocated together with
  its weight arena; when the allocation of the model itself fails, line 60 dereferences the
  null pointer (the model's \<open>None\<close>) and no handle is returned at all.
\<close>

theorem rwkv_init_from_file_failure_keeps_model:
  "(\<exists>s. rwkv_init_from_file example_h True True (Load_failed 512) Build_ok 4 no_objects =
          Some (None, s) \<and>
        contexts s = Map.empty \<and> models s 17 \<noteq> None \<and>
        map_option reference_count (models s 17) = Some 1) \<and>
   (\<exists>s. rwkv_init_from_file example_h True True (Load_ok example_header 5 64)
          (Build_failed 1536) 4 no_objects = Some (None, s) \<and>
        contexts s = Map.empty \<and> map_option model_ggml_ctx (models s 17) = Some (Some 18) \<and>
        arenas s = {18}) \<and>
   rwkv_init_from_file example_h True False (Load_ok example_header 5 64) Build_ok 4 no_objects =
     None"
  by (simp add: rwkv_api_defs no_objects_def example_h_def)

text \<open>
  C4: \<^verbatim>\<open>rwkv_get_last_error\<close> returns the current value of the addressed error slot and
  resets that slot to the no-error value. The slot is the context's own when a context is
  passed and the process-wide one when NULL is passed (\<open>error_slot\<close>); no other slot
  changes; a second call right after the first returns the no-error value.
\<close>

theorem rwkv_get_last_error_reads_and_clears:
  assumes "error_slot s ctx = Some v"
  shows "\<exists>s'. rwkv_get_last_error h ctx s = Some (v, s') \<and>
           error_slot s' ctx = Some (RWKV_ERROR_NONE h) \<and>
           (\<forall>ctx'. ctx' \<noteq> ctx \<longrightarrow> error_slot s' ctx' = error_slot s ctx') \<and>
           rwkv_get_last_error h ctx s' = Some (RWKV_ERROR_NONE h, s')"
proof (cases ctx)
  case None
  with assms show ?thesis
    by (auto simp: rwkv_get_last_error_def error_slot_def split: option.splits)
next
  case (Some c)
  with assms obtain x where x: "contexts s c = Some x" "last_error x = v"
    by (auto simp: error_slot_def)
  with Some show ?thesis
    by (auto simp: rwkv_get_last_error_def error_slot_def update_context_def split: option.splits)
qed

theorem rwkv_get_last_error_reads_and_clears_witness:
  "\<exists>s'. rwkv_get_last_error example_h (Some 16)
           (no_objects\<lparr>contexts := [16 \<mapsto>
               \<lparr>model = Some 17, n_threads = 4,
                serial_graph = \<lparr>graph_ggml_ctx = Some 19\<rparr>,
                sequential_graph = \<lparr>graph_ggml_ctx = None\<rparr>,
                last_used_sequence_length = 0, last_error = 256, print_errors = False\<rparr>],
              global_last_error := 1793\<rparr>) = Some (256, s') \<and>
         error_slot s' (Some 16) = Some 0 \<and> error_slot s' None = Some 1793 \<and>
         rwkv_get_last_error example_h (Some 16) s' = Some (0, s')"
proof -
  let ?s = "no_objects\<lparr>contexts := [16 \<mapsto>
               \<lparr>model = Some 17, n_threads = 4,
                serial_graph = \<lparr>graph_ggml_ctx = Some 19\<rparr>,
                sequential_graph = \<lparr>graph_ggml_ctx = None\<rparr>,
                last_used_sequence_length = 0, last_error = 256, print_errors = False\<rparr>],
              global_last_error := 1793\<rparr>"
  have "error_slot ?s (Some 16) = Some 256"
    by (simp add: error_slot_def)
  from rwkv_get_last_error_reads_and_clears [OF this, of example_h]
  obtain s' where s': "rwkv_get_last_error example_h (Some 16) ?s = Some (256, s')"
    "error_slot s' (Some 16) = Some (RWKV_ERROR_NONE example_h)"
    "\<forall>ctx'. ctx' \<noteq> Some 16 \<longrightarrow> error_slot s' ctx' = error_slot ?s ctx'"
    "rwkv_get_last_error example_h (Some 16) s' = Some (RWKV_ERROR_NONE example_h, s')"
    by blast
  from s'(3) have "error_slot s' None = error_slot ?s None"
    by blast
  then have "error_slot s' None = Some 1793"
    by (simp add: error_slot_def)
  with s' show ?thesis
    by (auto simp: example_h_def)
qed

text \<open>
  C5: the reference count of a model should equal the number of live contexts that point
  to it. \<^verbatim>\<open>rwkv_clone_context\<close> increments the count (line 76) before the graph build
  that can fail (line 80), and the failure path returns NULL without taking the increment
  back. After one successful init and one clone whose graph build fails, one context points
  to the model and its count is 2; freeing that context leaves the count at 1, so the model
  and its weight arena are never released. (The invariant that does hold, \<open>heap_ok\<close>, says
  the count is at least the number of referring contexts.)
\<close>

theorem rwkv_clone_context_failure_keeps_count:
  "\<exists>s s'. api_run example_h
            [Init_from_file True True (Load_ok example_header 5 64) Build_ok 4,
             Clone_context True (Build_failed 1536) (Some 16) 2] no_objects = Some s \<and>
          referrers (contexts s) 17 = {16} \<and>
          map_option reference_count (models s 17) = Some 2 \<and>
          rwkv_free (Some 16) s = Some s' \<and>
          contexts s' = Map.empty \<and>
          map_option reference_count (models s' 17) = Some 1 \<and>
          arenas s' = {18}"
  by (auto simp: rwkv_api_defs no_objects_def example_h_def referrers_def)

text \<open>
  C7: for a multi-step request of \<open>len\<close> tokens on a live context, whose build (if one is
  needed) succeeds, the multi-step graph is rebuilt, a new arena replacing the previous
  graph, if and only if \<open>len\<close> differs from the context's last-built length; afterwards the
  last-built length is \<open>len\<close>, and a repeated request of the same length leaves the state
  unchanged and builds nothing, whatever a build would have met. (The previous graph, if
  any, was allocated before, so its arena is not the next unused address.)
\<close>

theorem multi_step_graph_rebuilt_iff_length_differs:
  assumes "contexts s c = Some x"
    and "graph_ggml_ctx (sequential_graph x) \<noteq> Some (next_addr s)"
  shows "\<exists>s' x'. evaluate_multi_step_graph Build_ok (Some c) len s = Some (True, s') \<and>
           contexts s' c = Some x' \<and>
           (sequential_graph x' \<noteq> sequential_graph x \<longleftrightarrow> len \<noteq> last_used_sequence_length x) \<and>
           last_used_sequence_length x' = len \<and>
           (len = last_used_sequence_length x \<longrightarrow> s' = s) \<and>
           evaluate_multi_step_graph outcome (Some c) len s' = Some (True, s')"
proof (cases "last_used_sequence_length x = len")
  case True
  with assms(1) show ?thesis
    by (simp add: evaluate_multi_step_graph_def)
next
  case False
  with assms show ?thesis
    by (cases "sequential_graph x")
      (auto simp: evaluate_multi_step_graph_def update_context_def ggml_free_def Let_def
        split: option.splits)
qed

theorem multi_step_graph_rebuilt_iff_length_differs_witness:
  "\<exists>s' x'. evaluate_multi_step_graph Build_ok (Some 16) 3
             (no_objects\<lparr>contexts := [16 \<mapsto>
               \<lparr>model = Some 17, n_threads = 4,
                serial_graph = \<lparr>graph_ggml_ctx = Some 19\<rparr>,
                sequential_graph = \<lparr>graph_ggml_ctx = None\<rparr>,
                last_used_sequence_length = 0, last_error = 0, print_errors = False\<rparr>],
               next_addr := 20\<rparr>) = Some (True, s') \<and>
           contexts s' 16 = Some x' \<and>
           sequential_graph x' = \<lparr>graph_ggml_ctx = Some 20\<rparr> \<and>
           last_used_sequence_length x' = 3 \<and>
           evaluate_multi_step_graph (Build_failed 1536) (Some 16) 3 s' = Some (True, s')"
proof -
  let ?x = "\<lparr>model = Some 17, n_threads = 4,
             serial_graph = \<lparr>graph_ggml_ctx = Some 19\<rparr>,
             sequential_graph = \<lparr>graph_ggml_ctx = None\<rparr>,
             last_used_sequence_length = 0, last_error = 0, print_errors = False\<rparr>"
  let ?s = "no_objects\<lparr>contexts := [16 \<mapsto> ?x], next_addr := 20\<rparr>"
  have x: "contexts ?s 16 = Some ?x"
    and g: "graph_ggml_ctx (sequential_graph ?x) \<noteq> Some (next_addr ?s)"
    by simp_all
  from multi_step_graph_rebuilt_iff_length_differs [OF x g, of 3 "Build_failed 1536"]
  obtain s' x' where r: "evaluate_multi_step_graph Build_ok (Some 16) 3 ?s = Some (True, s')"
    "contexts s' 16 = Some x'" "last_used_sequence_length x' = 3"
    "evaluate_multi_step_graph (Build_failed 1536) (Some 16) 3 s' = Some (True, s')"
    by auto
  have "evaluate_multi_step_graph Build_ok (Some 16) 3 ?s =
          Some (True, ?s\<lparr>contexts := [16 \<mapsto> ?x\<lparr>sequential_graph := \<lparr>graph_ggml_ctx = Some 20\<rparr>,
                                                   last_used_sequence_length := 3\<rparr>],
                          arenas := {20}, next_addr := 21\<rparr>)"
    by (simp add: evaluate_multi_step_graph_def update_context_def no_objects_def)
  with r(1,2) have "sequential_graph x' = \<lparr>graph_ggml_ctx = Some 20\<rparr>"
    by auto
  with r show ?thesis
    by blast
qed

text \<open>
  C9: \<^verbatim>\<open>rwkv_get_logits_len\<close> returns the vocabulary size of the model's header, and
  \<^verbatim>\<open>rwkv_get_logits_len\<close> and \<^verbatim>\<open>rwkv_get_state_len\<close> return the same value at every
  point of a model's lifetime: whatever calls of \<^verbatim>\<open>rwkv.cpp\<close> happen in between
  (init, clone, free, set_print_errors, get_last_error, failing or not), a context that
  points to the same model gets the same two lengths.
\<close>

theorem lengths_fixed_for_model_lifetime:
  assumes ok: "heap_ok s" and run: "api_run h ks s = Some s'"
    and x: "contexts s c = Some x" and x': "contexts s' c' = Some x'"
    and same: "model x' = model x"
  shows "\<exists>m r. ctx_model s (Some c) = Some m \<and>
           rwkv_get_logits_len s (Some c) = Some r \<and> unat r = unat (n_vocab (header m)) \<and>
           rwkv_get_logits_len s' (Some c') = rwkv_get_logits_len s (Some c) \<and>
           rwkv_get_state_len s' (Some c') = rwkv_get_state_len s (Some c)"
proof -
  from heap_ok_context_model [OF ok x] obtain a m where a: "model x = Some a" "models s a = Some m"
    by blast
  from api_run_heap_ok [OF ok run] have ok': "heap_ok s'" .
  from heap_ok_context_model [OF ok' x'] same a obtain m' where m': "models s' a = Some m'"
    by auto
  from heap_ok_model_below [OF ok a(2)] have "a < next_addr s" .
  with api_run_models_kept [OF ok run] m' a(2) have dims: "same_dimensions m m'"
    by (auto simp: models_kept_def)
  have cm: "ctx_model s (Some c) = Some m"
    using x a by (simp add: ctx_model_def ctx_context_def)
  have cm': "ctx_model s' (Some c') = Some m'"
    using x' same a m' by (simp add: ctx_model_def ctx_context_def)
  from cm cm' dims show ?thesis
    by (simp add: rwkv_get_logits_len_def rwkv_get_state_len_def same_dimensions_def
        unat_ucast_32_64)
qed

theorem lengths_fixed_for_model_lifetime_witness:
  "\<exists>s s'. api_run example_h [Init_from_file True True (Load_ok example_header 5 64) Build_ok 4]
            no_objects = Some s \<and>
          api_run example_h
            [Clone_context True Build_ok (Some 16) 2, Free (Some 16), Get_last_error None] s = Some s' \<and>
          contexts s 20 = None \<and> contexts s' 16 = None \<and>
          rwkv_get_logits_len s (Some 16) = Some 50277 \<and>
          rwkv_get_logits_len s' (Some 20) = rwkv_get_logits_len s (Some 16) \<and>
          rwkv_get_state_len s' (Some 20) = rwkv_get_state_len s (Some 16)"
proof -
  let ?x = "\<lparr>model = Some 17, n_threads = 4,
             serial_graph = \<lparr>graph_ggml_ctx = Some 19\<rparr>,
             sequential_graph = \<lparr>graph_ggml_ctx = None\<rparr>,
             last_used_sequence_length = 0, last_error = 0, print_errors = False\<rparr>"
  let ?m = "\<lparr>model_ggml_ctx = Some 18, header = example_header,
             arch_version_major = 5, head_size = 64, reference_count = 1\<rparr>"
  let ?s = "no_objects\<lparr>contexts := [16 \<mapsto> ?x], models := [17 \<mapsto> ?m],
             arenas := {19, 18}, next_addr := 20, global_last_error := 0\<rparr>"
  have run: "api_run example_h
      [Init_from_file True True (Load_ok example_header 5 64) Build_ok 4] no_objects = Some ?s"
    by (simp add: rwkv_api_defs no_objects_def example_h_def)
  have len: "rwkv_get_logits_len ?s (Some 16) = Some 50277"
    by (simp add: rwkv_get_logits_len_def ctx_model_def ctx_context_def example_header_def)
  have "\<exists>s'. api_run example_h
      [Clone_context True Build_ok (Some 16) 2, Free (Some 16), Get_last_error None] ?s = Some s' \<and>
      contexts s' 20 \<noteq> None \<and> contexts s' 16 = None \<and>
      map_option model (contexts s' 20) = Some (Some 17)"
    by (simp add: rwkv_api_defs no_objects_def example_h_def)
  then obtain s' x' where run': "api_run example_h
      [Clone_context True Build_ok (Some 16) 2, Free (Some 16), Get_last_error None] ?s = Some s'"
    and x': "contexts s' 20 = Some x'" and gone: "contexts s' 16 = None"
    and mx: "model x' = model ?x"
    by auto
  have "heap_ok no_objects"
    by (simp add: heap_ok_def no_objects_def)
  from api_run_heap_ok [OF this run] have ok: "heap_ok ?s" .
  have x: "contexts ?s 16 = Some ?x"
    by simp
  have fresh: "contexts ?s 20 = None"
    by simp
  from lengths_fixed_for_model_lifetime [OF ok run' x x' mx]
  have eq: "rwkv_get_logits_len s' (Some 20) = rwkv_get_logits_len ?s (Some 16)"
    "rwkv_get_state_len s' (Some 20) = rwkv_get_state_len ?s (Some 16)"
    by blast+
  from run run' fresh gone len eq show ?thesis
    by blast
qed

text \<open>
  C10: \<^verbatim>\<open>rwkv_free\<close> with a null handle returns at once: the state after the call is the
  state before it, so nothing is deallocated and nothing is changed.
\<close>

theorem rwkv_free_null:
  "rwkv_free None s = Some s"
  by (simp add: rwkv_free_def)

end
